theory Spec2Isabelle
  imports Complex_Main "HOL-Library.Sublist" "HOL-Library.AList"
begin

section \<open>Python strings\<close>

text \<open>
  Texts are modelled as HOL strings; a \<^typ>\<open>char\<close> is read as the code point of the
  same number, so the model covers the code points U+0000 to U+00FF. The character
  classes below are those of Python's \<^verbatim>\<open>str\<close> methods on that range.
\<close>

definition is_space :: "char \<Rightarrow> bool" where
  \<comment> \<open>\<^verbatim>\<open>str.isspace\<close>: the characters removed by \<^verbatim>\<open>strip()\<close> and separating words in \<^verbatim>\<open>split()\<close>\<close>
  "is_space c = (c \<in> set [CHR 0x09, CHR 0x0A, CHR 0x0B, CHR 0x0C, CHR 0x0D,
                            CHR 0x1C, CHR 0x1D, CHR 0x1E, CHR 0x1F, CHR 0x20,
                            CHR 0x85, CHR 0xA0])"

definition is_digit :: "char \<Rightarrow> bool" where
  \<comment> \<open>the class \<^verbatim>\<open>\d\<close> of \<^verbatim>\<open>re\<close>\<close>
  "is_digit c = (c \<in> set ''0123456789'')"

definition lower_char :: "char \<Rightarrow> char" where
  "lower_char c =
     (let n = (of_char c :: nat)
      in if (65 \<le> n \<and> n \<le> 90) \<or> (192 \<le> n \<and> n \<le> 222 \<and> n \<noteq> 215)
         then char_of (n + 32) else c)"

definition lower :: "string \<Rightarrow> string" where
  \<comment> \<open>\<^verbatim>\<open>str.lower()\<close>\<close>
  "lower s = map lower_char s"

definition strip :: "string \<Rightarrow> string" where
  \<comment> \<open>\<^verbatim>\<open>str.strip()\<close>\<close>
  "strip s = rev (dropWhile is_space (rev (dropWhile is_space s)))"

fun split_from :: "string \<Rightarrow> string \<Rightarrow> string list" where
  \<comment> \<open>the loop of \<^verbatim>\<open>str.split()\<close>: the first argument is the word being read, reversed\<close>
  "split_from w [] = (if w = [] then [] else [rev w])"
| "split_from w (c # cs) =
     (if is_space c then (if w = [] then split_from [] cs else rev w # split_from [] cs)
      else split_from (c # w) cs)"

definition split :: "string \<Rightarrow> string list" where
  \<comment> \<open>\<^verbatim>\<open>str.split()\<close> without arguments\<close>
  "split s = split_from [] s"

definition endswith :: "string \<Rightarrow> string \<Rightarrow> bool" where
  "endswith s e = suffix e s"

fun contains :: "string \<Rightarrow> string \<Rightarrow> bool" where
  \<comment> \<open>\<^verbatim>\<open>p in s\<close> on strings\<close>
  "contains p [] = (p = [])"
| "contains p (c # cs) = (prefix p (c # cs) \<or> contains p cs)"

fun join :: "string \<Rightarrow> string list \<Rightarrow> string" where
  \<comment> \<open>\<^verbatim>\<open>sep.join(xs)\<close>\<close>
  "join sep [] = []"
| "join sep [x] = x"
| "join sep (x # y # ys) = x @ sep @ join sep (y # ys)"

definition first_line :: "string \<Rightarrow> string" where
  \<comment> \<open>\<^verbatim>\<open>s.split('\n')[0]\<close>\<close>
  "first_line s = takeWhile (\<lambda>c. c \<noteq> CHR 0x0A) s"

section \<open>Regular expressions\<close>

text \<open>
  The fragment of \<^verbatim>\<open>re\<close> that the validator's pattern uses: literal characters,
  the class \<^verbatim>\<open>\d\<close>, bracket classes, alternation, sequence and \<^verbatim>\<open>+\<close>. Matching is
  by derivatives; the flag says whether \<^verbatim>\<open>re.IGNORECASE\<close> is set.
\<close>

datatype item = Ch char | Dig

datatype rexp =
    Zero
  | One
  | Class "item list"
  | Alt rexp rexp
  | Seq rexp rexp
  | Star rexp

definition Lit :: "char \<Rightarrow> rexp" where
  "Lit c = Class [Ch c]"

definition Plus :: "rexp \<Rightarrow> rexp" where
  "Plus r = Seq r (Star r)"

fun item_match :: "bool \<Rightarrow> item \<Rightarrow> char \<Rightarrow> bool" where
  "item_match ic (Ch a) c = (if ic then lower_char c = lower_char a else c = a)"
| "item_match ic Dig c = is_digit c"

fun nullable :: "rexp \<Rightarrow> bool" where
  "nullable Zero = False"
| "nullable One = True"
| "nullable (Class is) = False"
| "nullable (Alt r s) = (nullable r \<or> nullable s)"
| "nullable (Seq r s) = (nullable r \<and> nullable s)"
| "nullable (Star r) = True"

fun deriv :: "bool \<Rightarrow> char \<Rightarrow> rexp \<Rightarrow> rexp" where
  "deriv ic c Zero = Zero"
| "deriv ic c One = Zero"
| "deriv ic c (Class is) = (if list_ex (\<lambda>i. item_match ic i c) is then One else Zero)"
| "deriv ic c (Alt r s) = Alt (deriv ic c r) (deriv ic c s)"
| "deriv ic c (Seq r s) =
     (if nullable r then Alt (Seq (deriv ic c r) s) (deriv ic c s)
      else Seq (deriv ic c r) s)"
| "deriv ic c (Star r) = Seq (deriv ic c r) (Star r)"

fun fullmatch :: "bool \<Rightarrow> rexp \<Rightarrow> string \<Rightarrow> bool" where
  \<comment> \<open>\<^verbatim>\<open>re.fullmatch(r, s, flags)\<close> read as a truth value\<close>
  "fullmatch ic r [] = nullable r"
| "fullmatch ic r (c # cs) = fullmatch ic (deriv ic c r) cs"

section \<open>The heading validator\<close>

definition marker_pattern :: rexp where
  \<comment> \<open>\<^verbatim>\<open>r'[\d\.]+|S\.No'\<close>\<close>
  "marker_pattern =
     Alt (Plus (Class [Dig, Ch CHR ''.'']))
         (Seq (Lit CHR ''S'') (Seq (Lit CHR ''.'') (Seq (Lit CHR ''N'') (Lit CHR ''o''))))"

definition form_labels :: "string list" where
  "form_labels = [''name'', ''age'', ''relationship'', ''date'',
                  ''signature of government servant.'']"

definition is_valid_heading :: "string \<Rightarrow> bool" where
  "is_valid_heading text0 =
     (let t = strip text0
      in if t = [] then False
         else if fullmatch True marker_pattern t then False
         else if endswith t ''.'' \<and> length (split t) > 4 then False
         else if lower t \<in> set form_labels then False
         else True)"

section \<open>The extractor's output\<close>

text \<open>
  What the rendering library hands over for an opened document: per page the blocks of
  \<^verbatim>\<open>get_text("dict")["blocks"]\<close>, each with or without the key \<^verbatim>\<open>"lines"\<close>, each line
  with its spans, and the texts of \<^verbatim>\<open>get_text("blocks")\<close> (component 4 of each tuple).
  Font sizes are finite floats, modelled as rationals.
\<close>

record span =
  span_text :: string
  span_size :: rat
  span_font :: string

record line =
  spans :: "span list"

datatype block = Block (block_lines: "line list option")

record page =
  blocks :: "block list"
  text_blocks :: "string list"

type_synonym doc = "page list"

type_synonym style = "int \<times> bool"

definition py_round :: "rat \<Rightarrow> int" where
  \<comment> \<open>\<^verbatim>\<open>round(x)\<close> on a float: to the nearest integer, a tie to the even one\<close>
  "py_round x =
     (let f = \<lfloor>x\<rfloor>; r = x - of_int f
      in if r < 1 / 2 then f else if 1 / 2 < r then f + 1
         else if even f then f else f + 1)"

definition style_of :: "span \<Rightarrow> style" where
  "style_of s = (py_round (span_size s), contains ''bold'' (lower (span_font s)))"

fun first_line_spans :: "block \<Rightarrow> (span \<times> span list) option" where
  \<comment> \<open>the guard \<^verbatim>\<open>"lines" in block and block["lines"] and block["lines"][0]["spans"]\<close>;
      when it holds, the first span of the first line and all spans of that line\<close>
  "first_line_spans b =
     (case block_lines b of
        None \<Rightarrow> None
      | Some [] \<Rightarrow> None
      | Some (l # _) \<Rightarrow> (case spans l of [] \<Rightarrow> None | s # ss \<Rightarrow> Some (s, s # ss)))"

definition line_text :: "span list \<Rightarrow> string" where
  "line_text ss = strip (join '' '' (map span_text ss))"

section \<open>Style hierarchy\<close>

fun counter_incr :: "'k \<Rightarrow> ('k \<times> nat) list \<Rightarrow> ('k \<times> nat) list" where
  \<comment> \<open>\<^verbatim>\<open>counter[k] += 1\<close> on an insertion-ordered \<^verbatim>\<open>Counter\<close>\<close>
  "counter_incr k [] = [(k, 1)]"
| "counter_incr k ((k', n) # kvs) =
     (if k = k' then (k', n + 1) # kvs else (k', n) # counter_incr k kvs)"

fun count_lines :: "line list \<Rightarrow> (style \<times> nat) list \<Rightarrow> (style \<times> nat) list" where
  "count_lines [] sc = sc"
| "count_lines (l # ls) sc =
     count_lines ls (case spans l of [] \<Rightarrow> sc | s # _ \<Rightarrow> counter_incr (style_of s) sc)"

fun count_blocks :: "block list \<Rightarrow> (style \<times> nat) list \<Rightarrow> (style \<times> nat) list" where
  "count_blocks [] sc = sc"
| "count_blocks (b # bs) sc =
     count_blocks bs (case block_lines b of None \<Rightarrow> sc | Some ls \<Rightarrow> count_lines ls sc)"

fun count_pages :: "page list \<Rightarrow> (style \<times> nat) list \<Rightarrow> (style \<times> nat) list" where
  "count_pages [] sc = sc"
| "count_pages (p # ps) sc = count_pages ps (count_blocks (blocks p) sc)"

definition style_counts :: "doc \<Rightarrow> nat \<Rightarrow> (style \<times> nat) list" where
  \<comment> \<open>the counting loop over \<^verbatim>\<open>range(start_page, len(doc))\<close>\<close>
  "style_counts d start_page = count_pages (drop start_page d) []"

fun most_common_from :: "('k \<times> nat) \<Rightarrow> ('k \<times> nat) list \<Rightarrow> ('k \<times> nat)" where
  \<comment> \<open>\<^verbatim>\<open>most_common(1)\<close> is \<^verbatim>\<open>max\<close> by count: a later item wins only when strictly greater\<close>
  "most_common_from best [] = best"
| "most_common_from best (kv # kvs) =
     most_common_from (if snd best < snd kv then kv else best) kvs"

definition sorted_by :: "('a \<Rightarrow> int) \<Rightarrow> bool \<Rightarrow> 'a list \<Rightarrow> 'a list" where
  \<comment> \<open>\<^verbatim>\<open>sorted(xs, key=key, reverse=reverse)\<close>: a stable sort; with \<^verbatim>\<open>reverse\<close> the list
      is reversed before and after\<close>
  "sorted_by key reverse xs =
     (if reverse then rev (sort_key key (rev xs)) else sort_key key xs)"

definition digit_char :: "nat \<Rightarrow> char" where
  "digit_char n = char_of (48 + n)"

fun str_nat :: "nat \<Rightarrow> string" where
  \<comment> \<open>\<^verbatim>\<open>str(n)\<close>\<close>
  "str_nat n = (if n < 10 then [digit_char n] else str_nat (n div 10) @ [digit_char (n mod 10)])"

declare str_nat.simps [simp del]

fun level_map :: "(nat \<times> style) list \<Rightarrow> (style \<times> string) list \<Rightarrow> (style \<times> string) list" where
  \<comment> \<open>the dict comprehension \<^verbatim>\<open>{style: f"H{i+1}" for i, style in ...}\<close>\<close>
  "level_map [] m = m"
| "level_map ((i, s) # rest) m = level_map rest (AList.update s (''H'' @ str_nat (i + 1)) m)"

definition is_heading_style :: "style \<Rightarrow> style \<Rightarrow> bool" where
  \<comment> \<open>the filter of the list comprehension, for body style \<open>b\<close>\<close>
  "is_heading_style b s = (fst s > fst b \<or> (fst s = fst b \<and> snd s \<and> s \<noteq> b))"

definition get_style_hierarchy :: "doc \<Rightarrow> nat \<Rightarrow> (style \<times> string) list \<times> style option" where
  "get_style_hierarchy d start_page =
     (case style_counts d start_page of
        [] \<Rightarrow> ([], None)
      | kv # kvs \<Rightarrow>
          (let body_style = fst (most_common_from kv kvs);
               heading_styles =
                 sorted_by fst True (filter (is_heading_style body_style) (map fst (kv # kvs)))
           in (level_map (enumerate 0 (take 3 heading_styles)) [], Some body_style)))"

section \<open>Title and ignore set\<close>

fun max_font_size_loop :: "block list \<Rightarrow> int \<Rightarrow> int" where
  "max_font_size_loop [] m = m"
| "max_font_size_loop (b # bs) m =
     max_font_size_loop bs
       (case first_line_spans b of
          None \<Rightarrow> m
        | Some (s, _) \<Rightarrow> max m (py_round (span_size s)))"

fun title_loop :: "block list \<Rightarrow> int \<Rightarrow> string list \<times> string set \<Rightarrow> string list \<times> string set" where
  "title_loop [] m acc = acc"
| "title_loop (b # bs) m (title_lines, texts_to_ignore) =
     title_loop bs m
       (case first_line_spans b of
          None \<Rightarrow> (title_lines, texts_to_ignore)
        | Some (s, ss) \<Rightarrow>
            (if py_round (span_size s) = m
             then (title_lines @ [line_text ss], texts_to_ignore)
             else (title_lines, insert (line_text ss) texts_to_ignore)))"

definition analyze_first_page :: "doc \<Rightarrow> string \<times> string set" where
  "analyze_first_page d =
     (case d of
        [] \<Rightarrow> (''Title not found'', {})
      | first_page # _ \<Rightarrow>
          if blocks first_page = [] then (''Title not found'', {})
          else
            (let max_font_size = max_font_size_loop (blocks first_page) 0
             in if max_font_size = 0 then
                  (case text_blocks first_page of
                     [] \<Rightarrow> (''Title not found'', {})
                   | tb # _ \<Rightarrow> (first_line (strip tb), {}))
                else
                  (case title_loop (blocks first_page) max_font_size ([], {}) of
                     (title_lines, texts_to_ignore) \<Rightarrow>
                       (if title_lines \<noteq> [] then join '' '' title_lines else ''Title not found'',
                        texts_to_ignore))))"

section \<open>Outline assembly\<close>

record outline_entry =
  level :: string
  entry_text :: string
  page :: nat

record result =
  title :: string
  outline :: "outline_entry list"

fun outline_blocks ::
  "block list \<Rightarrow> nat \<Rightarrow> string \<Rightarrow> string set \<Rightarrow> (style \<times> string) list
     \<Rightarrow> outline_entry list \<Rightarrow> outline_entry list" where
  "outline_blocks [] page_num ttl ign stl out = out"
| "outline_blocks (b # bs) page_num ttl ign stl out =
     outline_blocks bs page_num ttl ign stl
       (case first_line_spans b of
          None \<Rightarrow> out
        | Some (s, ss) \<Rightarrow>
            (let lt = line_text ss
             in if lt = [] \<or> lt = ttl \<or> lt \<in> ign then out
                else if map_of stl (style_of s) \<noteq> None \<and> is_valid_heading lt then
                  (case map_of stl (style_of s) of
                     None \<Rightarrow> out
                   | Some lv \<Rightarrow>
                       if lv \<noteq> [] \<and> lv \<in> set [''H1'', ''H2'', ''H3'']
                       then out @ [\<lparr>level = lv, entry_text = lt, page = page_num + 1\<rparr>]
                       else out)
                else out))"

fun outline_pages ::
  "page list \<Rightarrow> nat \<Rightarrow> string \<Rightarrow> string set \<Rightarrow> (style \<times> string) list
     \<Rightarrow> outline_entry list \<Rightarrow> outline_entry list" where
  "outline_pages [] page_num ttl ign stl out = out"
| "outline_pages (p # ps) page_num ttl ign stl out =
     outline_pages ps (page_num + 1) ttl ign stl
       (outline_blocks (blocks p) page_num ttl ign stl out)"

definition basename :: "string \<Rightarrow> string" where
  \<comment> \<open>\<^verbatim>\<open>os.path.basename\<close>\<close>
  "basename p = rev (takeWhile (\<lambda>c. c \<noteq> CHR ''/'') (rev p))"

datatype opened = Readable doc | Unreadable

datatype py_error = Extraction_error

definition process_pdf_document :: "(string \<Rightarrow> opened option) \<Rightarrow> string \<Rightarrow> py_error + result" where
  \<comment> \<open>The first argument is \<^verbatim>\<open>fitz.open\<close>: \<open>None\<close> where it raises (the only call inside
      the \<^verbatim>\<open>try\<close>). A document that opens is \<open>Readable\<close>, with the data of its pages, or
      \<open>Unreadable\<close>: its page count or one of its pages raises when read (a locked or
      damaged file). Every run reads the page count and every page before it returns
      (\<^verbatim>\<open>len(doc)\<close> and page 0 in \<^verbatim>\<open>analyze_first_page\<close>, the pages from the start page in
      \<^verbatim>\<open>get_style_hierarchy\<close>, the start page being 0 for one page), and none of these
      reads is inside a \<^verbatim>\<open>try\<close>: the exception leaves the function, \<open>Inl\<close>.\<close>
  "process_pdf_document fitz_open pdf_path =
     (case fitz_open pdf_path of
        None \<Rightarrow> Inr \<lparr>title = ''Error processing '' @ basename pdf_path, outline = []\<rparr>
      | Some Unreadable \<Rightarrow> Inl Extraction_error
      | Some (Readable d) \<Rightarrow>
          (case analyze_first_page d of
             (ttl, texts_to_ignore) \<Rightarrow>
               (let start_page_for_styles = (if length d > 1 then 1 else 0);
                    style_to_level = fst (get_style_hierarchy d start_page_for_styles)
                in if style_to_level = [] then Inr \<lparr>title = ttl, outline = []\<rparr>
                   else Inr \<lparr>title = ttl,
                             outline = outline_pages d 0 ttl texts_to_ignore style_to_level []\<rparr>)))"

section \<open>The batch driver\<close>

record filesystem =
  dirs :: "string set"
  files :: "string \<rightharpoonup> result"

definition path_exists :: "filesystem \<Rightarrow> string \<Rightarrow> bool" where
  "path_exists fs p = (p \<in> dirs fs \<or> files fs p \<noteq> None)"

definition path_join :: "string \<Rightarrow> string \<Rightarrow> string" where
  \<comment> \<open>\<^verbatim>\<open>os.path.join\<close> of two components\<close>
  "path_join a b =
     (if prefix ''/'' b then b
      else if a = [] \<or> endswith a ''/'' then a @ b
      else a @ ''/'' @ b)"

definition splitext_root :: "string \<Rightarrow> string" where
  \<comment> \<open>\<^verbatim>\<open>os.path.splitext(p)[0]\<close>: cut at the last dot of the last component, unless only
      dots come before it there\<close>
  "splitext_root p =
     (let name = basename p;
          dir = take (length p - length name) p
      in if CHR ''.'' \<notin> set name then p
         else
           (let stem = rev (tl (dropWhile (\<lambda>c. c \<noteq> CHR ''.'') (rev name)))
            in if list_all (\<lambda>c. c = CHR ''.'') stem then p else dir @ stem))"

definition output_path_of :: "string \<Rightarrow> string \<Rightarrow> string" where
  "output_path_of output_dir filename = path_join output_dir (splitext_root filename @ ''.json'')"

definition is_truthy :: "result \<Rightarrow> bool" where
  \<comment> \<open>\<^verbatim>\<open>if structured_data\<close>: a dict with the keys title and outline is not empty\<close>
  "is_truthy r = True"

fun batch_loop ::
  "(string \<Rightarrow> opened option) \<Rightarrow> string list \<Rightarrow> string \<Rightarrow> string \<Rightarrow> filesystem
     \<Rightarrow> filesystem \<times> py_error option" where
  \<comment> \<open>The loop has no \<^verbatim>\<open>try\<close>: an exception of \<open>process_pdf_document\<close> ends it. The
      result is the file system as the loop leaves it, and the exception if one was raised.\<close>
  "batch_loop fitz_open [] input_dir output_dir fs = (fs, None)"
| "batch_loop fitz_open (filename # rest) input_dir output_dir fs =
     (if endswith (lower filename) ''.pdf'' then
        (let pdf_path = path_join input_dir filename
         in case process_pdf_document fitz_open pdf_path of
              Inl e \<Rightarrow> (fs, Some e)
            | Inr structured_data \<Rightarrow>
                batch_loop fitz_open rest input_dir output_dir
                  (if is_truthy structured_data
                   then fs\<lparr>files := (files fs)(output_path_of output_dir filename \<mapsto> structured_data)\<rparr>
                   else fs))
      else batch_loop fitz_open rest input_dir output_dir fs)"

definition process_all_pdfs ::
  "(string \<Rightarrow> opened option) \<Rightarrow> string list \<Rightarrow> string \<Rightarrow> string \<Rightarrow> filesystem
     \<Rightarrow> filesystem \<times> py_error option" where
  \<comment> \<open>the second argument is \<^verbatim>\<open>os.listdir(input_dir)\<close>\<close>
  "process_all_pdfs fitz_open listing input_dir output_dir fs =
     batch_loop fitz_open listing input_dir output_dir
       (if \<not> path_exists fs output_dir then fs\<lparr>dirs := insert output_dir (dirs fs)\<rparr> else fs)"

section \<open>The validator's rules as the specification words them\<close>

definition rule_blank :: "string \<Rightarrow> bool" where
  \<comment> \<open>rule 1: the text is empty or consists of whitespace only\<close>
  "rule_blank t = (\<forall>c\<in>set t. is_space c)"

definition rule_marker :: "string \<Rightarrow> bool" where
  \<comment> \<open>rule 2: the whole text is a run of digits and dots, or is the token S.No in any case\<close>
  "rule_marker t =
     ((t \<noteq> [] \<and> (\<forall>c\<in>set t. is_digit c \<or> c = CHR ''.'')) \<or> lower t = lower ''S.No'')"

definition rule_sentence :: "string \<Rightarrow> bool" where
  \<comment> \<open>rule 3: the text ends in a full stop and has more than four words\<close>
  "rule_sentence t = (endswith t ''.'' \<and> length (split t) > 4)"

definition rule_label :: "string \<Rightarrow> bool" where
  \<comment> \<open>rule 4: the text is one of the form labels, in any case\<close>
  "rule_label t = (\<exists>l\<in>set form_labels. lower t = lower l)"

section \<open>Lines of a document, for stating what the assembler visits\<close>

definition first_lines_of_blocks :: "page \<Rightarrow> (span \<times> span list) list" where
  \<comment> \<open>for each block whose first line has spans, the first span and the spans of that line\<close>
  "first_lines_of_blocks pg =
     concat (map (\<lambda>b. case first_line_spans b of None \<Rightarrow> [] | Some x \<Rightarrow> [x]) (blocks pg))"

definition every_line :: "page \<Rightarrow> (span \<times> span list) list" where
  \<comment> \<open>for each line of each block that has spans, its first span and its spans\<close>
  "every_line pg =
     concat (map (\<lambda>b. case block_lines b of
                          None \<Rightarrow> []
                        | Some ls \<Rightarrow>
                            concat (map (\<lambda>l. case spans l of [] \<Rightarrow> [] | s # ss \<Rightarrow> [(s, s # ss)]) ls))
                 (blocks pg))"

definition numbered_lines ::
  "(page \<Rightarrow> (span \<times> span list) list) \<Rightarrow> doc \<Rightarrow> (nat \<times> span \<times> span list) list" where
  \<comment> \<open>the selected lines of all pages in document order, each with its zero-based page index\<close>
  "numbered_lines sel d = concat (map (\<lambda>(i, pg). map (\<lambda>x. (i, x)) (sel pg)) (enumerate 0 d))"

definition entry_of :: "(style \<times> string) list \<Rightarrow> nat \<times> span \<times> span list \<Rightarrow> outline_entry" where
  \<comment> \<open>the entry of a line whose style is a key of the level map\<close>
  "entry_of stl x =
     (case x of (i, s, ss) \<Rightarrow>
        \<lparr>level = the (map_of stl (style_of s)), entry_text = line_text ss, page = i + 1\<rparr>)"

definition qualifies :: "(style \<times> string) list \<Rightarrow> nat \<times> span \<times> span list \<Rightarrow> bool" where
  \<comment> \<open>the style is a key of the level map and the text passes the validator\<close>
  "qualifies stl x =
     (case x of (i, s, ss) \<Rightarrow> style_of s \<in> fst ` set stl \<and> is_valid_heading (line_text ss))"

definition not_skipped :: "string \<Rightarrow> string set \<Rightarrow> nat \<times> span \<times> span list \<Rightarrow> bool" where
  \<comment> \<open>the text is not empty, not the title and not in the ignore set\<close>
  "not_skipped ttl ign x =
     (case x of (i, s, ss) \<Rightarrow> line_text ss \<noteq> [] \<and> line_text ss \<noteq> ttl \<and> line_text ss \<notin> ign)"

definition claimed_outline :: "doc \<Rightarrow> (style \<times> string) list \<Rightarrow> outline_entry list" where
  \<comment> \<open>an entry for every line of every page that qualifies\<close>
  "claimed_outline d stl = map (entry_of stl) (filter (qualifies stl) (numbered_lines every_line d))"

definition no_text_runs :: "page \<Rightarrow> bool" where
  \<comment> \<open>no line of the page has a span\<close>
  "no_text_runs pg =
     list_all (\<lambda>b. case block_lines b of None \<Rightarrow> True | Some ls \<Rightarrow> list_all (\<lambda>l. spans l = []) ls)
       (blocks pg)"

section \<open>Example documents\<close>

definition run :: "string \<Rightarrow> rat \<Rightarrow> string \<Rightarrow> span" where
  "run t z f = \<lparr>span_text = t, span_size = z, span_font = f\<rparr>"

definition text_block :: "span list list \<Rightarrow> block" where
  "text_block ls = Block (Some (map (\<lambda>ss. \<lparr>spans = ss\<rparr>) ls))"

definition image_block :: block where
  "image_block = Block None"

definition page_of :: "block list \<Rightarrow> page" where
  "page_of bs =
     \<lparr>blocks = bs,
      text_blocks =
        concat (map (\<lambda>b. case block_lines b of
                             None \<Rightarrow> []
                           | Some ls \<Rightarrow> [concat (map (\<lambda>l. concat (map span_text (spans l)) @ [CHR 0x0A]) ls)])
                    bs)\<rparr>"

definition guide_doc :: doc where
  \<comment> \<open>a heading in bold 16 as the second line of a block of body text\<close>
  "guide_doc =
     [page_of [text_block [[run ''Field Guide'' 24 ''Helvetica'']]],
      page_of [text_block [[run ''Birds are everywhere.'' 10 ''Helvetica''],
                           [run ''Habitats'' 16 ''Helvetica-Bold''],
                           [run ''They live in many places.'' 10 ''Helvetica'']],
               text_block [[run ''Some nest on cliffs.'' 10 ''Helvetica'']]]]"

definition thesis_doc :: doc where
  \<comment> \<open>body text of size 10 and three lines of size 16, each the first line of its block\<close>
  "thesis_doc =
     [page_of [text_block [[run ''A Study'' 24 ''Times'']],
               text_block [[run ''by the author'' 12 ''Times'']]],
      page_of [text_block [[run ''Introduction'' 16 ''Times'']],
               text_block [[run ''First paragraph'' 10 ''Times''],
                           [run ''goes on here'' 10 ''Times'']],
               text_block [[run ''1.2'' 16 ''Times'']],
               text_block [[run ''Second paragraph'' (99 / 10) ''Times'']]],
      page_of [image_block,
               text_block [[run ''Conclusion'' 16 ''Times'']],
               text_block [[run ''Last paragraph'' 10 ''Times'']]]]"

definition report_doc :: doc where
  \<comment> \<open>a title set in two blocks of size 24 on page 1, a heading of size 24 on page 2\<close>
  "report_doc =
     [page_of [text_block [[run ''Annual'' 24 ''Arial'']],
               text_block [[run ''Report'' 24 ''Arial'']],
               text_block [[run ''Acme Corp'' 12 ''Arial'']]],
      page_of [text_block [[run ''Overview'' 24 ''Arial'']],
               text_block [[run ''The year went well.'' 10 ''Arial''],
                           [run ''Sales grew.'' 10 ''Arial'']]]]"

definition notice_doc :: doc where
  \<comment> \<open>one page: a title in two blocks of bold 20 and three blocks of body text\<close>
  "notice_doc =
     [page_of [text_block [[run ''Quarterly'' 20 ''Arial-BoldMT'']],
               text_block [[run ''Summary'' 20 ''Arial-BoldMT'']],
               text_block [[run ''Revenue rose'' 11 ''Arial'']],
               text_block [[run ''Costs fell'' 11 ''Arial'']],
               text_block [[run ''Outlook stable'' 11 ''Arial'']]]]"

definition cover_doc :: doc where
  \<comment> \<open>text on page 1 only: page 2 holds an image and a line without spans\<close>
  "cover_doc =
     [page_of [text_block [[run ''Big Title'' 30 ''Arial'']],
               text_block [[run ''Subtitle'' 18 ''Arial-Bold'']],
               text_block [[run ''body'' 10 ''Arial'']]],
      page_of [image_block, text_block [[]]]]"

definition manual_doc :: doc where
  \<comment> \<open>five styles besides the body style (10, not bold), two of them of size 14\<close>
  "manual_doc =
     [page_of [text_block [[run ''User Manual'' 28 ''Verdana'']]],
      page_of [text_block [[run ''Setup'' 14 ''Verdana-Bold'']],
               text_block [[run ''Plug it in.'' 10 ''Verdana''],
                           [run ''Switch it on.'' 10 ''Verdana''],
                           [run ''Wait.'' 10 ''Verdana'']],
               text_block [[run ''Part One'' 18 ''Verdana'']],
               text_block [[run ''Notes'' 14 ''Verdana'']],
               text_block [[run ''Tips'' 12 ''Verdana'']],
               text_block [[run ''Warning'' 10 ''Verdana-Bold'']],
               text_block [[run ''small print'' 8 ''Verdana'']]]]"

definition one_title_doc :: doc where
  \<comment> \<open>one page: a title in one block, a bold line of size 14 and three blocks of body text\<close>
  "one_title_doc =
     [page_of [text_block [[run ''Quarterly Summary'' 20 ''Arial-BoldMT'']],
               text_block [[run ''Highlights'' 14 ''Arial-BoldMT'']],
               text_block [[run ''Revenue rose'' 11 ''Arial'']],
               text_block [[run ''Costs fell'' 11 ''Arial'']],
               text_block [[run ''Outlook stable'' 11 ''Arial'']]]]"

definition locked_open :: "string \<Rightarrow> opened option" where
  \<comment> \<open>an input directory: \<^verbatim>\<open>locked.pdf\<close> opens and raises when read, \<^verbatim>\<open>thesis.pdf\<close> is
      readable, nothing else opens\<close>
  "locked_open q =
     (if q = ''./input/locked.pdf'' then Some Unreadable
      else if q = ''./input/thesis.pdf'' then Some (Readable thesis_doc)
      else None)"

definition sample_fs :: filesystem where
  "sample_fs = \<lparr>dirs = {''.'', ''./input''}, files = Map.empty\<rparr>"

section \<open>Properties of the string functions\<close>

lemma hd_rstrip:
  "xs \<noteq> [] \<Longrightarrow> \<not> P (hd xs) \<Longrightarrow>
     rev (dropWhile P (rev xs)) \<noteq> [] \<and> hd (rev (dropWhile P (rev xs))) = hd xs"
proof (induction xs rule: rev_induct)
  case Nil
  then show ?case by simp
next
  case (snoc x xs)
  show ?case
  proof (cases "xs = []")
    case True
    with snoc.prems show ?thesis by simp
  next
    case False
    with snoc show ?thesis by (cases "P x") auto
  qed
qed

lemma dropWhile_strip: "dropWhile is_space (strip s) = strip s"
proof (cases "dropWhile is_space s = []")
  case True
  show ?thesis by (simp only: strip_def True dropWhile.simps rev.simps)
next
  case False
  then have "\<not> is_space (hd (dropWhile is_space s))" by (rule hd_dropWhile)
  with False have "strip s \<noteq> [] \<and> hd (strip s) = hd (dropWhile is_space s)"
    unfolding strip_def by (rule hd_rstrip)
  with \<open>\<not> is_space (hd (dropWhile is_space s))\<close> show ?thesis
    by (simp add: dropWhile_eq_self_iff)
qed

lemma strip_idem: "strip (strip s) = strip s"
proof -
  have "strip (strip s) = rev (dropWhile is_space (rev (strip s)))"
    by (simp add: strip_def [of "strip s"] dropWhile_strip)
  also have "\<dots> = strip s"
    by (simp add: strip_def)
  finally show ?thesis .
qed

lemma strip_empty_iff: "strip s = [] \<longleftrightarrow> (\<forall>c\<in>set s. is_space c)"
proof -
  have "strip s = [] \<longleftrightarrow> (\<forall>c\<in>set (dropWhile is_space s). is_space c)"
    by (simp add: strip_def)
  also have "\<dots> \<longleftrightarrow> dropWhile is_space (dropWhile is_space s) = []"
    by (simp only: dropWhile_eq_Nil_conv)
  also have "\<dots> \<longleftrightarrow> (\<forall>c\<in>set s. is_space c)"
    by (simp only: dropWhile_idem dropWhile_eq_Nil_conv)
  finally show ?thesis .
qed

lemma of_char_lower_char:
  "(of_char (lower_char c) :: nat) =
     (if (65 \<le> (of_char c :: nat) \<and> (of_char c :: nat) \<le> 90)
         \<or> (192 \<le> (of_char c :: nat) \<and> (of_char c :: nat) \<le> 222 \<and> (of_char c :: nat) \<noteq> 215)
      then of_char c + 32 else of_char c)"
  by (auto simp: lower_char_def Let_def)

lemma lower_char_dot: "lower_char c = CHR ''.'' \<longleftrightarrow> c = CHR ''.''"
proof -
  have "lower_char c = CHR ''.'' \<longleftrightarrow> (of_char (lower_char c) :: nat) = of_char CHR ''.''"
    by (simp only: of_char_eq_iff)
  also have "\<dots> \<longleftrightarrow> (of_char c :: nat) = of_char CHR ''.''"
    by (auto simp: of_char_lower_char)
  also have "\<dots> \<longleftrightarrow> c = CHR ''.''"
    by (simp only: of_char_eq_iff)
  finally show ?thesis .
qed

lemma lower_char_pattern:
  "lower_char CHR ''S'' = CHR ''s''" "lower_char CHR ''N'' = CHR ''n''"
  "lower_char CHR ''o'' = CHR ''o''" "lower_char CHR ''.'' = CHR ''.''"
  by code_simp+

lemma lower_SNo: "lower ''S.No'' = ''s.no''"
  by code_simp

lemma lower_form_labels: "map lower form_labels = form_labels"
  by code_simp

section \<open>The matcher on the validator's pattern\<close>

lemma fullmatch_Zero: "fullmatch ic Zero t = False"
  by (induction t) auto

lemma fullmatch_One: "fullmatch ic One t = (t = [])"
  by (cases t) (auto simp: fullmatch_Zero)

lemma fullmatch_Alt: "fullmatch ic (Alt r s) t = (fullmatch ic r t \<or> fullmatch ic s t)"
  by (induction t arbitrary: r s) auto

lemma fullmatch_Seq_Zero: "fullmatch ic (Seq Zero r) t = False"
  by (induction t) auto

lemma fullmatch_Seq_One: "fullmatch ic (Seq One r) t = fullmatch ic r t"
  by (cases t) (auto simp: fullmatch_Alt fullmatch_Seq_Zero)

lemma fullmatch_Class:
  "fullmatch ic (Class is) t = (\<exists>c. t = [c] \<and> list_ex (\<lambda>i. item_match ic i c) is)"
  by (cases t) (auto simp: fullmatch_One fullmatch_Zero)

lemma fullmatch_Seq_Class:
  "fullmatch ic (Seq (Class is) r) t =
     (\<exists>c cs. t = c # cs \<and> list_ex (\<lambda>i. item_match ic i c) is \<and> fullmatch ic r cs)"
  by (cases t) (auto simp: fullmatch_Seq_One fullmatch_Seq_Zero)

lemma fullmatch_Star_Class:
  "fullmatch ic (Star (Class is)) t = (\<forall>c\<in>set t. list_ex (\<lambda>i. item_match ic i c) is)"
  by (induction t) (auto simp: fullmatch_Seq_One fullmatch_Seq_Zero)

lemma fullmatch_Plus_Class:
  "fullmatch ic (Plus (Class is)) t =
     (t \<noteq> [] \<and> (\<forall>c\<in>set t. list_ex (\<lambda>i. item_match ic i c) is))"
  by (cases t) (auto simp: Plus_def fullmatch_Seq_One fullmatch_Seq_Zero fullmatch_Star_Class)

lemma fullmatch_marker: "fullmatch True marker_pattern t = rule_marker t"
proof -
  have "fullmatch True
          (Seq (Lit CHR ''S'') (Seq (Lit CHR ''.'') (Seq (Lit CHR ''N'') (Lit CHR ''o'')))) t
        = (lower t = ''s.no'')"
    by (auto simp: Lit_def fullmatch_Seq_Class fullmatch_Class lower_char_pattern lower_def)
  moreover have "fullmatch True (Plus (Class [Dig, Ch CHR ''.''])) t
        = (t \<noteq> [] \<and> (\<forall>c\<in>set t. is_digit c \<or> c = CHR ''.''))"
    by (simp add: fullmatch_Plus_Class lower_char_pattern lower_char_dot)
  ultimately show ?thesis
    by (simp add: marker_pattern_def fullmatch_Alt rule_marker_def lower_SNo)
qed

lemma rule_label_iff: "rule_label t = (lower t \<in> set form_labels)"
proof -
  have "rule_label t = (lower t \<in> set (map lower form_labels))"
    unfolding rule_label_def by auto
  then show ?thesis by (simp only: lower_form_labels)
qed

section \<open>The heading validator\<close>

text \<open>
  C5, as the code has it: \<open>is_valid_heading\<close> removes leading and trailing whitespace
  first, so it rejects a text exactly when the text is blank or its stripped form is a
  list marker (rule 2), a form sentence (rule 3) or a form label (rule 4); every other
  text is accepted.
\<close>

theorem is_valid_heading_rejects_iff:
  "is_valid_heading t = False \<longleftrightarrow>
     rule_blank t \<or> rule_marker (strip t) \<or> rule_sentence (strip t) \<or> rule_label (strip t)"
  by (auto simp: is_valid_heading_def Let_def fullmatch_marker rule_label_iff rule_sentence_def
       rule_blank_def strip_empty_iff)

theorem is_valid_heading_rejects_iff_witness:
  "is_valid_heading '' 1.2 '' = False \<and> is_valid_heading ''Introduction''"
proof -
  have "rule_marker (strip '' 1.2 '')" by code_simp
  with is_valid_heading_rejects_iff [of "'' 1.2 ''"] have "is_valid_heading '' 1.2 '' = False"
    by blast
  moreover have "\<not> (rule_blank ''Introduction'' \<or> rule_marker (strip ''Introduction'')
      \<or> rule_sentence (strip ''Introduction'') \<or> rule_label (strip ''Introduction''))"
    by code_simp
  with is_valid_heading_rejects_iff [of "''Introduction''"] have "is_valid_heading ''Introduction''"
    by blast
  ultimately show ?thesis by blast
qed

text \<open>
  C5 as stated, with the four rules read on the text as given, fails on a padded form
  label: the text is rejected although none of the rules matches it.
\<close>

theorem is_valid_heading_padded_label_counterexample:
  "\<not> (is_valid_heading ''  Name '' = False \<longleftrightarrow>
        rule_blank ''  Name '' \<or> rule_marker ''  Name ''
        \<or> rule_sentence ''  Name '' \<or> rule_label ''  Name '')"
  by code_simp

text \<open>
  C10: the verdict of \<open>is_valid_heading\<close> on a text is its verdict on the stripped text,
  so leading and trailing whitespace never changes it.
\<close>

theorem is_valid_heading_strip:
  "is_valid_heading t = is_valid_heading (strip t)"
  by (simp add: is_valid_heading_def strip_idem)

section \<open>The style frequency table and the level map\<close>

lemma map_fst_counter_incr:
  "map fst (counter_incr k sc) = (if k \<in> fst ` set sc then map fst sc else map fst sc @ [k])"
  by (induction sc) (force split: if_splits)+

lemma distinct_counter_incr:
  "distinct (map fst sc) \<Longrightarrow> distinct (map fst (counter_incr k sc))"
  by (simp add: map_fst_counter_incr)

lemma distinct_count_lines:
  "distinct (map fst sc) \<Longrightarrow> distinct (map fst (count_lines ls sc))"
  by (induction ls arbitrary: sc) (auto simp: distinct_counter_incr split: list.splits)

lemma distinct_count_blocks:
  "distinct (map fst sc) \<Longrightarrow> distinct (map fst (count_blocks bs sc))"
  by (induction bs arbitrary: sc) (auto simp: distinct_count_lines split: option.splits)

lemma distinct_count_pages:
  "distinct (map fst sc) \<Longrightarrow> distinct (map fst (count_pages ps sc))"
  by (induction ps arbitrary: sc) (auto simp: distinct_count_blocks)

lemma distinct_style_counts: "distinct (map fst (style_counts d n))"
  by (simp add: style_counts_def distinct_count_pages)

lemma set_sorted_by: "set (sorted_by key r xs) = set xs"
  by (simp add: sorted_by_def)

lemma distinct_sorted_by: "distinct (sorted_by key r xs) = distinct xs"
  by (simp add: sorted_by_def)

lemma sorted_by_reverse_descending:
  "sorted_wrt (\<lambda>a b. key a \<ge> key b) (sorted_by key True xs)"
proof -
  have "sorted (map key (sort_key key (rev xs)))" by (rule sorted_sort_key)
  then have "sorted_wrt (\<lambda>a b. key a \<le> key b) (sort_key key (rev xs))"
    by (simp add: sorted_map)
  then show ?thesis by (simp add: sorted_by_def sorted_wrt_rev)
qed

lemma sorted_by_reverse_stable:
  "filter (\<lambda>y. key y = k) (sorted_by key True xs) = filter (\<lambda>y. key y = k) xs"
proof -
  have "filter (\<lambda>y. key y = k) (sorted_by key True xs)
        = rev (filter (\<lambda>y. key y = k) (sort_key key (rev xs)))"
    by (simp add: sorted_by_def rev_filter)
  also have "\<dots> = rev (filter (\<lambda>y. key y = k) (rev xs))"
    by (simp only: sort_key_stable)
  also have "\<dots> = filter (\<lambda>y. key y = k) xs"
    by (simp add: rev_filter)
  finally show ?thesis .
qed

lemma update_fresh: "k \<notin> fst ` set m \<Longrightarrow> AList.update k v m = m @ [(k, v)]"
  by (induction m) auto

lemma level_map_distinct:
  "distinct xs \<Longrightarrow> set xs \<inter> fst ` set m = {} \<Longrightarrow>
     level_map (enumerate n xs) m
       = m @ map (\<lambda>(i, s). (s, ''H'' @ str_nat (i + 1))) (enumerate n xs)"
proof (induction xs arbitrary: n m)
  case Nil
  then show ?case by simp
next
  case (Cons x xs)
  from Cons.prems have fresh: "x \<notin> fst ` set m" by auto
  have "level_map (enumerate n (x # xs)) m
        = level_map (enumerate (Suc n) xs) (m @ [(x, ''H'' @ str_nat (n + 1))])"
    by (simp add: update_fresh [OF fresh])
  also have "\<dots> = (m @ [(x, ''H'' @ str_nat (n + 1))])
        @ map (\<lambda>(i, s). (s, ''H'' @ str_nat (i + 1))) (enumerate (Suc n) xs)"
    using Cons.prems by (intro Cons.IH) auto
  finally show ?case by simp
qed

lemma level_names: "map (\<lambda>i. ''H'' @ str_nat (i + 1)) [0..<3] = [''H1'', ''H2'', ''H3'']"
  by code_simp

lemma enumerate_levels_from:
  "map (\<lambda>(i, s). (s, f i)) (enumerate n ys) = zip ys (map f [n..<n + length ys])"
proof (induction ys arbitrary: n)
  case Nil
  then show ?case by simp
next
  case (Cons y ys)
  have "[n..<n + length (y # ys)] = n # [Suc n..<Suc n + length ys]"
    by (subst upt_rec) simp
  with Cons.IH [of "Suc n"] show ?case by simp
qed

lemma zip_three_levels:
  assumes "length ys \<le> 3"
  shows "zip ys (map (\<lambda>i. ''H'' @ str_nat (i + 1)) [0..<length ys]) = zip ys [''H1'', ''H2'', ''H3'']"
proof -
  have "map (\<lambda>i. ''H'' @ str_nat (i + 1)) [0..<length ys]
        = take (length ys) (map (\<lambda>i. ''H'' @ str_nat (i + 1)) [0..<3])"
    using assms by (simp add: take_map del: upt_Suc)
  then have "zip ys (map (\<lambda>i. ''H'' @ str_nat (i + 1)) [0..<length ys])
        = zip ys (take (length ys) [''H1'', ''H2'', ''H3''])"
    by (simp only: level_names)
  also have "\<dots> = zip (take (length ys) ys) (take (length ys) [''H1'', ''H2'', ''H3''])"
    by simp
  also have "\<dots> = take (length ys) (zip ys [''H1'', ''H2'', ''H3''])"
    by (simp only: take_zip)
  also have "\<dots> = zip ys [''H1'', ''H2'', ''H3'']"
    by simp
  finally show ?thesis .
qed

lemma level_map_take3:
  assumes "distinct hs"
  shows "level_map (enumerate 0 (take 3 hs)) [] = zip (take 3 hs) [''H1'', ''H2'', ''H3'']"
proof -
  have "level_map (enumerate 0 (take 3 hs)) []
        = map (\<lambda>(i, s). (s, ''H'' @ str_nat (i + 1))) (enumerate 0 (take 3 hs))"
    using assms by (simp add: level_map_distinct)
  also have "\<dots> = zip (take 3 hs) (map (\<lambda>i. ''H'' @ str_nat (i + 1)) [0..<length (take 3 hs)])"
    using enumerate_levels_from [of _ 0 "take 3 hs"] by simp
  also have "\<dots> = zip (take 3 hs) [''H1'', ''H2'', ''H3'']"
    by (rule zip_three_levels) simp
  finally show ?thesis .
qed

lemma get_style_hierarchy_Nil:
  "style_counts d n = [] \<Longrightarrow> get_style_hierarchy d n = ([], None)"
  by (simp add: get_style_hierarchy_def)

lemma get_style_hierarchy_Some:
  assumes "style_counts d n \<noteq> []"
  shows "get_style_hierarchy d n =
     (zip (take 3 (sorted_by fst True
            (filter (is_heading_style (fst (most_common_from (hd (style_counts d n)) (tl (style_counts d n)))))
               (map fst (style_counts d n)))))
          [''H1'', ''H2'', ''H3''],
      Some (fst (most_common_from (hd (style_counts d n)) (tl (style_counts d n)))))"
proof -
  obtain kv kvs where sc: "style_counts d n = kv # kvs"
    using assms by (cases "style_counts d n") auto
  have "distinct (map fst (kv # kvs))"
    using distinct_style_counts [of d n] by (simp only: sc)
  then have "distinct (sorted_by fst True
        (filter (is_heading_style (fst (most_common_from kv kvs))) (map fst (kv # kvs))))"
    by (simp only: distinct_sorted_by distinct_filter)
  then show ?thesis
    by (simp add: get_style_hierarchy_def sc Let_def level_map_take3 del: distinct.simps)
qed


section \<open>Invariants of the outline loops\<close>

lemma most_common_from_mem: "most_common_from best kvs \<in> set (best # kvs)"
  by (induction kvs arbitrary: best) (auto split: if_splits)

lemma most_common_from_max:
  "kv \<in> set (best # kvs) \<Longrightarrow> snd kv \<le> snd (most_common_from best kvs)"
proof (induction kvs arbitrary: best kv)
  case Nil
  then show ?case by simp
next
  case (Cons x xs)
  have ge: "snd b \<le> snd (most_common_from b xs)" for b
    using Cons.IH [of b b] by simp
  from Cons.prems consider "kv = best" | "kv = x" | "kv \<in> set xs" by auto
  then show ?case
  proof cases
    case 1
    then show ?thesis using ge [of best] ge [of x] by (auto simp: not_less intro: order_trans less_imp_le)
  next
    case 2
    then show ?thesis using ge [of best] ge [of x] by (auto simp: not_less intro: order_trans)
  next
    case 3
    then show ?thesis using Cons.IH by auto
  qed
qed

lemma body_style_in_table:
  assumes "style_counts d n \<noteq> []"
  shows "fst (most_common_from (hd (style_counts d n)) (tl (style_counts d n)))
           \<in> fst ` set (style_counts d n)"
proof -
  have "most_common_from (hd (style_counts d n)) (tl (style_counts d n))
          \<in> set (hd (style_counts d n) # tl (style_counts d n))"
    by (rule most_common_from_mem)
  with assms show ?thesis by simp
qed

lemma outline_blocks_props:
  "set (outline_blocks bs page_num ttl ign stl out)
     \<subseteq> set out \<union> {e. level e \<in> {''H1'', ''H2'', ''H3''} \<and> entry_text e \<noteq> ttl
                        \<and> entry_text e \<notin> ign \<and> is_valid_heading (entry_text e)
                        \<and> page e = page_num + 1}"
proof (induction bs arbitrary: out)
  case Nil
  then show ?case by simp
next
  case (Cons b bs)
  show ?case
    apply (simp only: outline_blocks.simps)
    apply (rule subset_trans [OF Cons.IH])
    apply (auto simp: Let_def split: option.splits prod.splits if_splits)
    done
qed

lemma outline_pages_props:
  "set (outline_pages ps page_num ttl ign stl out)
     \<subseteq> set out \<union> {e. level e \<in> {''H1'', ''H2'', ''H3''} \<and> entry_text e \<noteq> ttl
                        \<and> entry_text e \<notin> ign \<and> is_valid_heading (entry_text e)
                        \<and> page_num < page e \<and> page e \<le> page_num + length ps}"
proof (induction ps arbitrary: page_num out)
  case Nil
  then show ?case by simp
next
  case (Cons p ps)
  show ?case
    apply (simp only: outline_pages.simps)
    apply (rule subset_trans [OF Cons.IH])
    using outline_blocks_props [of "blocks p" page_num ttl ign stl out]
    apply auto
    done
qed

lemma process_outline_props:
  "process_pdf_document fitz_open p = Inr r \<Longrightarrow> e \<in> set (outline r) \<Longrightarrow>
     level e \<in> {''H1'', ''H2'', ''H3''} \<and> entry_text e \<noteq> title r"
  using outline_pages_props [of _ 0 _ _ _ "[]"]
  by (fastforce simp: process_pdf_document_def Let_def
        split: option.splits opened.splits prod.splits if_splits)

section \<open>The outline as a list of the first lines of blocks\<close>

lemma level_map_values:
  "(s, lv) \<in> set (fst (get_style_hierarchy d n)) \<Longrightarrow> lv \<in> set [''H1'', ''H2'', ''H3'']"
proof (cases "style_counts d n = []")
  case True
  assume "(s, lv) \<in> set (fst (get_style_hierarchy d n))"
  with True show ?thesis by (simp add: get_style_hierarchy_Nil)
next
  case False
  assume "(s, lv) \<in> set (fst (get_style_hierarchy d n))"
  then show ?thesis
    unfolding get_style_hierarchy_Some [OF False] fst_conv by (rule set_zip_rightD)
qed

lemma outline_blocks_eq:
  assumes "\<And>s lv. (s, lv) \<in> set stl \<Longrightarrow> lv \<in> set [''H1'', ''H2'', ''H3'']"
  shows "outline_blocks bs page_num ttl ign stl out =
     out @ map (entry_of stl)
             (filter (\<lambda>x. not_skipped ttl ign x \<and> qualifies stl x)
                (map (\<lambda>x. (page_num, x))
                   (concat (map (\<lambda>b. case first_line_spans b of None \<Rightarrow> [] | Some x \<Rightarrow> [x]) bs))))"
proof (induction bs arbitrary: out)
  case Nil
  then show ?case by simp
next
  case (Cons b bs)
  show ?case
  proof (cases "first_line_spans b")
    case None
    then show ?thesis by (simp add: Cons.IH)
  next
    case (Some x)
    obtain s ss where x: "x = (s, ss)" by (cases x)
    note fl = Some
    show ?thesis
    proof (cases "map_of stl (style_of s)")
      case None
      then have "style_of s \<notin> fst ` set stl" by (simp add: map_of_eq_None_iff)
      with None fl x show ?thesis
        by (simp add: Cons.IH Let_def qualifies_def not_skipped_def)
    next
      case (Some lv)
      then have mem: "(style_of s, lv) \<in> set stl" by (rule map_of_SomeD)
      then have "lv \<in> set [''H1'', ''H2'', ''H3'']" by (rule assms)
      then have lv: "lv \<noteq> [] \<and> lv \<in> set [''H1'', ''H2'', ''H3'']" by auto
      from mem have key: "style_of s \<in> fst ` set stl" by force
      from fl x Some lv key show ?thesis
        by (simp add: Cons.IH Let_def qualifies_def not_skipped_def entry_of_def del: set_simps)
    qed
  qed
qed

lemma outline_pages_eq:
  assumes "\<And>s lv. (s, lv) \<in> set stl \<Longrightarrow> lv \<in> set [''H1'', ''H2'', ''H3'']"
  shows "outline_pages ps page_num ttl ign stl out =
     out @ map (entry_of stl)
             (filter (\<lambda>x. not_skipped ttl ign x \<and> qualifies stl x)
                (concat (map (\<lambda>(i, pg). map (\<lambda>x. (i, x)) (first_lines_of_blocks pg))
                   (enumerate page_num ps))))"
proof (induction ps arbitrary: page_num out)
  case Nil
  then show ?case by simp
next
  case (Cons p ps)
  show ?case
    by (simp add: Cons.IH outline_blocks_eq [OF assms] first_lines_of_blocks_def)
qed

lemma count_lines_none:
  "list_all (\<lambda>l. spans l = []) ls \<Longrightarrow> count_lines ls sc = sc"
  by (induction ls) auto

lemma count_blocks_none:
  "list_all (\<lambda>b. case block_lines b of None \<Rightarrow> True | Some ls \<Rightarrow> list_all (\<lambda>l. spans l = []) ls) bs
     \<Longrightarrow> count_blocks bs sc = sc"
  by (induction bs) (auto simp: count_lines_none split: option.splits)

lemma count_pages_none:
  "list_all no_text_runs ps \<Longrightarrow> count_pages ps sc = sc"
  by (induction ps) (auto simp: no_text_runs_def count_blocks_none)

section \<open>Paths and the batch loop\<close>

lemma basename_path_join:
  assumes "CHR ''/'' \<notin> set f"
  shows "basename (path_join a f) = f"
proof -
  have nf: "\<not> prefix ''/'' f" using assms by (cases f) auto
  have tw: "takeWhile (\<lambda>c. c \<noteq> CHR ''/'') (rev f @ ys) = rev f @ takeWhile (\<lambda>c. c \<noteq> CHR ''/'') ys" for ys
    by (rule takeWhile_append2) (use assms in auto)
  have "basename (x @ ''/'' @ f) = f" for x
    unfolding basename_def by (simp add: tw [of "CHR ''/'' # rev x", simplified])
  moreover have "basename f = f"
  proof -
    have "takeWhile (\<lambda>c. c \<noteq> CHR ''/'') (rev f) = rev f"
      by (rule takeWhile_eq_all_conv [THEN iffD2]) (use assms in auto)
    then show ?thesis unfolding basename_def by (simp only: rev_rev_ident)
  qed
  moreover have "endswith a ''/'' \<Longrightarrow> \<exists>x. a = x @ ''/''"
    by (auto simp: endswith_def suffix_def)
  ultimately show ?thesis
    using nf by (auto simp: path_join_def)
qed

lemma unopenable_error_result:
  assumes "CHR ''/'' \<notin> set filename" and "fitz_open (path_join input_dir filename) = None"
  shows "process_pdf_document fitz_open (path_join input_dir filename)
           = Inr \<lparr>title = ''Error processing '' @ filename, outline = []\<rparr>"
  using assms(2) by (simp add: process_pdf_document_def basename_path_join [OF assms(1)])

lemma unreadable_raises:
  "fitz_open p = Some Unreadable \<Longrightarrow> process_pdf_document fitz_open p = Inl Extraction_error"
  by (simp add: process_pdf_document_def)

lemma not_unreadable_returns:
  "fitz_open p \<noteq> Some Unreadable \<Longrightarrow> \<exists>r. process_pdf_document fitz_open p = Inr r"
  by (auto simp: process_pdf_document_def Let_def split: option.splits opened.splits prod.splits)

lemma batch_loop_append:
  "batch_loop fo (xs @ ys) i out fs =
     (case batch_loop fo xs i out fs of
        (fs', None) \<Rightarrow> batch_loop fo ys i out fs'
      | (fs', Some e) \<Rightarrow> (fs', Some e))"
  by (induction xs arbitrary: fs) (auto simp: Let_def split: sum.splits)

lemma batch_loop_returns:
  "(\<And>g. g \<in> set xs \<Longrightarrow> endswith (lower g) ''.pdf'' \<Longrightarrow> fo (path_join i g) \<noteq> Some Unreadable)
     \<Longrightarrow> snd (batch_loop fo xs i out fs) = None"
proof (induction xs arbitrary: fs)
  case Nil
  then show ?case by simp
next
  case (Cons x xs)
  show ?case
  proof (cases "endswith (lower x) ''.pdf''")
    case False
    with Cons show ?thesis by simp
  next
    case True
    with Cons.prems [of x] obtain r where "process_pdf_document fo (path_join i x) = Inr r"
      using not_unreadable_returns by fastforce
    with True Cons show ?thesis by (simp add: Let_def)
  qed
qed

lemma batch_loop_stops:
  assumes "snd (batch_loop fo before i out fs) = None"
    and "endswith (lower f) ''.pdf''"
    and "fo (path_join i f) = Some Unreadable"
  shows "batch_loop fo (before @ f # after) i out fs
           = (fst (batch_loop fo before i out fs), Some Extraction_error)"
proof -
  obtain fs' where "batch_loop fo before i out fs = (fs', None)"
    using assms(1) by (cases "batch_loop fo before i out fs") auto
  then show ?thesis
    using assms(2,3) by (simp add: batch_loop_append Let_def unreadable_raises)
qed

lemma files_batch_loop_mono:
  "files fs q \<noteq> None \<Longrightarrow> files (fst (batch_loop fo xs i out fs)) q \<noteq> None"
  by (induction xs arbitrary: fs) (auto simp: Let_def split: sum.splits)

lemma files_batch_loop_written:
  assumes "\<And>g. g \<in> set xs \<Longrightarrow> endswith (lower g) ''.pdf'' \<Longrightarrow> fo (path_join i g) \<noteq> Some Unreadable"
    and "g \<in> set xs" and "endswith (lower g) ''.pdf''"
  shows "files (fst (batch_loop fo xs i out fs)) (output_path_of out g) \<noteq> None"
  using assms
proof (induction xs arbitrary: fs)
  case Nil
  then show ?case by simp
next
  case (Cons x xs)
  show ?case
  proof (cases "endswith (lower x) ''.pdf''")
    case False
    with Cons.prems have "g \<in> set xs" by auto
    with False Cons show ?thesis by simp
  next
    case True
    with Cons.prems(1) [of x] obtain r where r: "process_pdf_document fo (path_join i x) = Inr r"
      using not_unreadable_returns by fastforce
    show ?thesis
    proof (cases "g = x")
      case True
      with \<open>endswith (lower x) ''.pdf''\<close> r show ?thesis
        by (simp add: Let_def is_truthy_def files_batch_loop_mono)
    next
      case False
      with Cons.prems have "g \<in> set xs" by auto
      with \<open>endswith (lower x) ''.pdf''\<close> r Cons show ?thesis
        by (simp add: Let_def)
    qed
  qed
qed

section \<open>The claims about documents\<close>

text \<open>
  C1, as the code has it: of each block only the first line is looked at. For a document
  that opens, the outline is the list, in document order, of the entries of the first
  lines of blocks (those with spans) whose text is not empty, not the title and not in the
  ignore set, whose first span's style is a key of the level map, and whose text passes
  \<open>is_valid_heading\<close>; the page of an entry is the page index plus one.
\<close>

theorem outline_is_first_lines_of_blocks:
  assumes "fitz_open p = Some (Readable d)"
    and "analyze_first_page d = (ttl, ign)"
    and "fst (get_style_hierarchy d (if length d > 1 then 1 else 0)) = stl"
  shows "process_pdf_document fitz_open p =
     Inr \<lparr>title = ttl,
          outline =
            map (entry_of stl)
              (filter (\<lambda>x. not_skipped ttl ign x \<and> qualifies stl x)
                 (numbered_lines first_lines_of_blocks d))\<rparr>"
proof (cases "stl = []")
  case True
  then have "filter (\<lambda>x. not_skipped ttl ign x \<and> qualifies stl x) xs = []" for xs
    by (simp add: qualifies_def split_def)
  with True assms show ?thesis
    by (simp add: process_pdf_document_def Let_def)
next
  case False
  have vals: "\<And>s lv. (s, lv) \<in> set stl \<Longrightarrow> lv \<in> set [''H1'', ''H2'', ''H3'']"
    unfolding assms(3) [symmetric] by (rule level_map_values)
  from False assms show ?thesis
    by (simp add: process_pdf_document_def Let_def outline_pages_eq [OF vals] numbered_lines_def)
qed

text \<open>The outline of a document with three lines in a heading style, one of them a list marker.\<close>

theorem outline_is_first_lines_of_blocks_witness:
  "process_pdf_document (\<lambda>_. Some (Readable thesis_doc)) ''in/thesis.pdf'' =
     Inr \<lparr>title = ''A Study'',
          outline =
            [\<lparr>level = ''H1'', entry_text = ''Introduction'', page = 2\<rparr>,
             \<lparr>level = ''H1'', entry_text = ''Conclusion'', page = 3\<rparr>]\<rparr>"
proof -
  have a: "(\<lambda>_. Some (Readable thesis_doc)) ''in/thesis.pdf'' = Some (Readable thesis_doc)" by simp
  have b: "analyze_first_page thesis_doc = (''A Study'', {''by the author''})" by code_simp
  have c: "fst (get_style_hierarchy thesis_doc (if length thesis_doc > 1 then 1 else 0))
             = [((16, False), ''H1'')]" by code_simp
  have "map (entry_of [((16, False), ''H1'')])
       (filter (\<lambda>x. not_skipped ''A Study'' {''by the author''} x \<and> qualifies [((16, False), ''H1'')] x)
          (numbered_lines first_lines_of_blocks thesis_doc)) =
     [\<lparr>level = ''H1'', entry_text = ''Introduction'', page = 2\<rparr>,
      \<lparr>level = ''H1'', entry_text = ''Conclusion'', page = 3\<rparr>]" by code_simp
  with outline_is_first_lines_of_blocks [OF a b c] show ?thesis by simp
qed

text \<open>
  C1 as stated fails: a line in a heading style with a valid text that is the second
  line of its block gets no entry, so the outline is not the list of entries of all
  qualifying lines.
\<close>

theorem later_line_of_block_counterexample:
  "\<not> (process_pdf_document (\<lambda>_. Some (Readable guide_doc)) ''in/guide.pdf''
        = Inr \<lparr>title = ''Field Guide'',
               outline = claimed_outline guide_doc (fst (get_style_hierarchy guide_doc 1))\<rparr>)
   \<and> process_pdf_document (\<lambda>_. Some (Readable guide_doc)) ''in/guide.pdf''
        = Inr \<lparr>title = ''Field Guide'', outline = []\<rparr>
   \<and> claimed_outline guide_doc (fst (get_style_hierarchy guide_doc 1))
        = [\<lparr>level = ''H1'', entry_text = ''Habitats'', page = 2\<rparr>]"
  by code_simp

text \<open>
  C2 does not hold of the code when the title is joined from two lines: neither line
  equals the joined title, and both are emitted as headings. The title lines collected on
  page 1 of such a document, and its result:
\<close>

theorem title_fragments_emitted_as_headings:
  "fst (title_loop (blocks (hd report_doc)) (max_font_size_loop (blocks (hd report_doc)) 0) ([], {}))
     = [''Annual'', ''Report'']
   \<and> process_pdf_document (\<lambda>_. Some (Readable report_doc)) ''in/report.pdf'' =
  Inr \<lparr>title = ''Annual Report'',
    outline =
      [\<lparr>level = ''H1'', entry_text = ''Annual'', page = 1\<rparr>,
       \<lparr>level = ''H1'', entry_text = ''Report'', page = 1\<rparr>,
       \<lparr>level = ''H1'', entry_text = ''Overview'', page = 2\<rparr>]\<rparr>"
  by code_simp

text \<open>
  When a document has no page, or more than one page and no text run after the first,
  the outline is empty whatever the first page holds, and the title is the one found by
  \<open>analyze_first_page\<close>.
\<close>

lemma empty_body_outline_empty:
  assumes "fitz_open p = Some (Readable d)" and "length d \<noteq> 1" and "list_all no_text_runs (tl d)"
  shows "process_pdf_document fitz_open p
           = Inr \<lparr>title = fst (analyze_first_page d), outline = []\<rparr>"
proof -
  have "drop (if length d > 1 then 1 else 0) d = tl d"
    using assms(2) by (cases d) auto
  then have "style_counts d (if length d > 1 then 1 else 0) = []"
    using assms(3) by (simp add: style_counts_def count_pages_none)
  then have "fst (get_style_hierarchy d (if length d > 1 then 1 else 0)) = []"
    by (simp add: get_style_hierarchy_Nil)
  with assms(1) show ?thesis
    by (simp add: process_pdf_document_def Let_def split: prod.splits)
qed

text \<open>
  A document of one page has its styles learnt from that page, so its level map need
  not be empty; still every first line of a block on page 1 is a title line or in the
  ignore set, and with a title of one line the outline is empty, as C3 says:
\<close>

lemma one_page_one_title_line:
  "fst (get_style_hierarchy one_title_doc 0) = [((20, True), ''H1''), ((14, True), ''H2'')]
   \<and> process_pdf_document (\<lambda>_. Some (Readable one_title_doc)) ''in/summary.pdf''
        = Inr \<lparr>title = ''Quarterly Summary'', outline = []\<rparr>"
  by code_simp

text \<open>
  C3 does not hold of the code on a document of one page whose title is joined from two
  lines: no page follows the first, and the two title lines are emitted as headings
  (the behaviour shown for C2). The title lines of such a document, and its result:
\<close>

theorem one_page_title_fragments_in_outline:
  "length notice_doc = 1
   \<and> list_all no_text_runs (tl notice_doc)
   \<and> fst (title_loop (blocks (hd notice_doc)) (max_font_size_loop (blocks (hd notice_doc)) 0) ([], {}))
        = [''Quarterly'', ''Summary'']
   \<and> process_pdf_document (\<lambda>_. Some (Readable notice_doc)) ''in/notice.pdf'' =
        Inr \<lparr>title = ''Quarterly Summary'',
             outline =
               [\<lparr>level = ''H1'', entry_text = ''Quarterly'', page = 1\<rparr>,
                \<lparr>level = ''H1'', entry_text = ''Summary'', page = 1\<rparr>]\<rparr>"
  by code_simp

text \<open>
  C4: when the style table is not empty, there is a body style and the list \<open>hs\<close> of
  the styles of the table that are larger than the body style, or of the same size, bold
  and different from it; \<open>hs\<close> is in descending order of size, styles of equal size
  in the order of the table; the level map pairs the first three of \<open>hs\<close> with H1, H2,
  H3 in that order. So the map has at most three keys, all different, and every entry
  of an outline has one of these three levels.
\<close>

theorem heading_level_map_first_three:
  assumes "style_counts d n \<noteq> []"
  shows "\<exists>body hs.
       snd (get_style_hierarchy d n) = Some body
     \<and> set hs = {s \<in> fst ` set (style_counts d n).
                   fst body < fst s \<or> (fst s = fst body \<and> snd s \<and> s \<noteq> body)}
     \<and> distinct hs
     \<and> sorted_wrt (\<lambda>a b. fst b \<le> fst a) hs
     \<and> (\<forall>k. filter (\<lambda>s. fst s = k) hs
               = filter (\<lambda>s. fst s = k)
                   (filter (\<lambda>s. fst body < fst s \<or> (fst s = fst body \<and> snd s \<and> s \<noteq> body))
                      (map fst (style_counts d n))))
     \<and> fst (get_style_hierarchy d n) = zip (take 3 hs) [''H1'', ''H2'', ''H3'']
     \<and> length (fst (get_style_hierarchy d n)) \<le> 3
     \<and> distinct (map fst (fst (get_style_hierarchy d n)))
     \<and> (\<forall>r. process_pdf_document fitz_open p = Inr r \<longrightarrow>
           (\<forall>e\<in>set (outline r). level e \<in> {''H1'', ''H2'', ''H3''}))"
proof -
  define body where "body = fst (most_common_from (hd (style_counts d n)) (tl (style_counts d n)))"
  define cand where "cand = (\<lambda>s::style. fst body < fst s \<or> (fst s = fst body \<and> snd s \<and> s \<noteq> body))"
  define hs where "hs = sorted_by fst True (filter cand (map fst (style_counts d n)))"
  have cand: "is_heading_style body = cand"
    by (auto simp: is_heading_style_def cand_def fun_eq_iff)
  have gsh: "get_style_hierarchy d n = (zip (take 3 hs) [''H1'', ''H2'', ''H3''], Some body)"
    unfolding get_style_hierarchy_Some [OF assms] hs_def body_def [symmetric] cand ..
  have dist: "distinct hs"
    unfolding hs_def distinct_sorted_by using distinct_style_counts [of d n]
    by (simp only: distinct_filter)
  have 1: "snd (get_style_hierarchy d n) = Some body" by (simp add: gsh)
  have 2: "set hs = {s \<in> fst ` set (style_counts d n). cand s}"
    by (auto simp: hs_def set_sorted_by)
  have 4: "sorted_wrt (\<lambda>a b. fst b \<le> fst a) hs"
    unfolding hs_def by (rule sorted_by_reverse_descending)
  have 5: "\<forall>k. filter (\<lambda>s. fst s = k) hs
      = filter (\<lambda>s. fst s = k) (filter cand (map fst (style_counts d n)))"
    unfolding hs_def by (simp add: sorted_by_reverse_stable)
  have 6: "fst (get_style_hierarchy d n) = zip (take 3 hs) [''H1'', ''H2'', ''H3'']"
    by (simp add: gsh)
  have 7: "length (fst (get_style_hierarchy d n)) \<le> 3" by (simp add: 6)
  have "map fst (zip (take 3 hs) [''H1'', ''H2'', ''H3'']) = take 3 hs"
    by (cases "length hs \<le> 3") (simp_all add: map_fst_zip_take min_def)
  then have 8: "distinct (map fst (fst (get_style_hierarchy d n)))"
    using dist by (simp add: 6)
  have 9: "\<forall>r. process_pdf_document fitz_open p = Inr r \<longrightarrow>
           (\<forall>e\<in>set (outline r). level e \<in> {''H1'', ''H2'', ''H3''})"
    using process_outline_props by blast
  from 1 2 dist 4 5 6 7 8 9 show ?thesis unfolding cand_def by blast
qed

text \<open>A table with five candidate styles, two of them of size 14.\<close>

theorem heading_level_map_first_three_witness:
  "style_counts manual_doc 1 \<noteq> [] \<and>
   fst (get_style_hierarchy manual_doc 1)
     = [((18, False), ''H1''), ((14, True), ''H2''), ((14, False), ''H3'')] \<and>
   length (fst (get_style_hierarchy manual_doc 1)) \<le> 3"
proof -
  have a: "style_counts manual_doc 1 \<noteq> []" by code_simp
  have b: "fst (get_style_hierarchy manual_doc 1)
     = [((18, False), ''H1''), ((14, True), ''H2''), ((14, False), ''H3'')]" by code_simp
  from heading_level_map_first_three [OF a] have "length (fst (get_style_hierarchy manual_doc 1)) \<le> 3" by blast
  with a b show ?thesis by blast
qed

text \<open>
  C6 does not hold of the code for a document that opens and cannot be read: only
  \<^verbatim>\<open>fitz.open\<close> is inside the \<^verbatim>\<open>try\<close>, so the exception leaves
  \<open>process_pdf_document\<close> and ends the loop of \<open>process_all_pdfs\<close>. In a directory
  listed as \<^verbatim>\<open>locked.pdf\<close>, \<^verbatim>\<open>broken.pdf\<close>, \<^verbatim>\<open>thesis.pdf\<close>, where the first opens and
  raises when read and the second does not open, the batch ends with the exception and
  no output file is written for any of the three; for \<^verbatim>\<open>broken.pdf\<close> alone the result
  is the error result.
\<close>

theorem unreadable_document_aborts_batch:
  "process_pdf_document locked_open (path_join ''./input'' ''locked.pdf'') = Inl Extraction_error
   \<and> process_pdf_document locked_open (path_join ''./input'' ''broken.pdf'')
        = Inr \<lparr>title = ''Error processing broken.pdf'', outline = []\<rparr>
   \<and> snd (process_all_pdfs locked_open [''locked.pdf'', ''broken.pdf'', ''thesis.pdf'']
             ''./input'' ''./output'' sample_fs) = Some Extraction_error
   \<and> files (fst (process_all_pdfs locked_open [''locked.pdf'', ''broken.pdf'', ''thesis.pdf'']
                    ''./input'' ''./output'' sample_fs)) ''./output/locked.json'' = None
   \<and> files (fst (process_all_pdfs locked_open [''locked.pdf'', ''broken.pdf'', ''thesis.pdf'']
                    ''./input'' ''./output'' sample_fs)) ''./output/broken.json'' = None
   \<and> files (fst (process_all_pdfs locked_open [''locked.pdf'', ''broken.pdf'', ''thesis.pdf'']
                    ''./input'' ''./output'' sample_fs)) ''./output/thesis.json'' = None
   \<and> output_path_of ''./output'' ''broken.pdf'' = ''./output/broken.json''"
  by code_simp

text \<open>
  Where every listed document that opens can be read, the loop runs to its end and every
  listed file ending in \<^verbatim>\<open>.pdf\<close> has its output file; a file that does not open has the
  error result as the content written for it.
\<close>

lemma readable_batch_writes_every_output:
  assumes "\<And>g. g \<in> set listing \<Longrightarrow> endswith (lower g) ''.pdf''
             \<Longrightarrow> fitz_open (path_join input_dir g) \<noteq> Some Unreadable"
    and "g \<in> set listing" and "endswith (lower g) ''.pdf''"
  shows "snd (process_all_pdfs fitz_open listing input_dir output_dir fs) = None
     \<and> files (fst (process_all_pdfs fitz_open listing input_dir output_dir fs))
           (output_path_of output_dir g) \<noteq> None"
  unfolding process_all_pdfs_def
  using batch_loop_returns [of listing fitz_open input_dir] files_batch_loop_written [of listing fitz_open input_dir g]
    assms
  by blast

text \<open>
  C7: no entry of the outline of a returned result has the title of that result as its
  text.
\<close>

theorem title_not_in_outline:
  "process_pdf_document fitz_open p = Inr r \<Longrightarrow> \<forall>e\<in>set (outline r). entry_text e \<noteq> title r"
  using process_outline_props by blast

text \<open>An entry of a computed outline, and its text differs from the title.\<close>

theorem title_not_in_outline_witness:
  "process_pdf_document (\<lambda>_. Some (Readable thesis_doc)) ''in/thesis.pdf''
     = Inr \<lparr>title = ''A Study'',
            outline =
              [\<lparr>level = ''H1'', entry_text = ''Introduction'', page = 2\<rparr>,
               \<lparr>level = ''H1'', entry_text = ''Conclusion'', page = 3\<rparr>]\<rparr>
   \<and> ''Introduction'' \<noteq> ''A Study'' \<and> ''Conclusion'' \<noteq> ''A Study''"
proof -
  have r: "process_pdf_document (\<lambda>_. Some (Readable thesis_doc)) ''in/thesis.pdf''
     = Inr \<lparr>title = ''A Study'',
            outline =
              [\<lparr>level = ''H1'', entry_text = ''Introduction'', page = 2\<rparr>,
               \<lparr>level = ''H1'', entry_text = ''Conclusion'', page = 3\<rparr>]\<rparr>"
    by code_simp
  from title_not_in_outline [OF r] have "''Introduction'' \<noteq> ''A Study'' \<and> ''Conclusion'' \<noteq> ''A Study''"
    by simp
  with r show ?thesis by blast
qed

text \<open>
  C9: the levels of the level map, in the order of its keys, are the first \<open>k\<close> of H1,
  H2, H3, where \<open>k\<close> is the smaller of 3 and the number of candidate heading styles
  (0 when the table is empty); no level and no style occurs twice; and where some
  style has level H3, some style has level H1 and some style has level H2.
\<close>

theorem heading_levels_consecutive:
  "map snd (fst (get_style_hierarchy d n))
     = take (case snd (get_style_hierarchy d n) of
               None \<Rightarrow> 0
             | Some body \<Rightarrow>
                 min 3 (card {s \<in> fst ` set (style_counts d n).
                               fst body < fst s \<or> (fst s = fst body \<and> snd s \<and> s \<noteq> body)}))
         [''H1'', ''H2'', ''H3'']
   \<and> distinct (map snd (fst (get_style_hierarchy d n)))
   \<and> distinct (map fst (fst (get_style_hierarchy d n)))
   \<and> ((\<exists>s. (s, ''H3'') \<in> set (fst (get_style_hierarchy d n))) \<longrightarrow>
        (\<exists>s. (s, ''H1'') \<in> set (fst (get_style_hierarchy d n)))
        \<and> (\<exists>s. (s, ''H2'') \<in> set (fst (get_style_hierarchy d n))))"
proof (cases "style_counts d n = []")
  case True
  then show ?thesis by (simp add: get_style_hierarchy_Nil)
next
  case False
  define body where "body = fst (most_common_from (hd (style_counts d n)) (tl (style_counts d n)))"
  define cand where "cand = (\<lambda>s::style. fst body < fst s \<or> (fst s = fst body \<and> snd s \<and> s \<noteq> body))"
  define hs where "hs = sorted_by fst True (filter cand (map fst (style_counts d n)))"
  define stl where "stl = fst (get_style_hierarchy d n)"
  have cand: "is_heading_style body = cand"
    by (auto simp: is_heading_style_def cand_def fun_eq_iff)
  have gsh: "get_style_hierarchy d n = (zip (take 3 hs) [''H1'', ''H2'', ''H3''], Some body)"
    unfolding get_style_hierarchy_Some [OF False] hs_def body_def [symmetric] cand ..
  have dist: "distinct hs"
    unfolding hs_def distinct_sorted_by using distinct_style_counts [of d n]
    by (simp only: distinct_filter)
  have "set hs = {s \<in> fst ` set (style_counts d n). cand s}"
    by (auto simp: hs_def set_sorted_by)
  with dist have card: "card {s \<in> fst ` set (style_counts d n). cand s} = length hs"
    using distinct_card by metis
  have stl: "stl = zip (take 3 hs) [''H1'', ''H2'', ''H3'']" by (simp add: stl_def gsh)
  have snds: "map snd stl = take (min 3 (length hs)) [''H1'', ''H2'', ''H3'']"
    unfolding stl by (simp only: map_snd_zip_take) (simp add: min.commute)
  have fsts: "map fst stl = take 3 hs"
    unfolding stl by (cases "length hs \<le> 3") (simp_all add: map_fst_zip_take min_def)
  have d1: "distinct (map snd stl)"
    unfolding snds by (rule distinct_take) simp
  have d2: "distinct (map fst stl)"
    unfolding fsts using dist by (rule distinct_take)
  have imp: "(\<exists>s. (s, ''H3'') \<in> set stl) \<longrightarrow> (\<exists>s. (s, ''H1'') \<in> set stl) \<and> (\<exists>s. (s, ''H2'') \<in> set stl)"
  proof
    assume "\<exists>s. (s, ''H3'') \<in> set stl"
    then have "''H3'' \<in> set (map snd stl)" by force
    then have h3: "''H3'' \<in> set (take (min 3 (length hs)) [''H1'', ''H2'', ''H3''])"
      by (simp only: snds)
    have small: "''H3'' \<notin> set (take k [''H1'', ''H2'', ''H3''])" if "k < 3" for k :: nat
    proof -
      from that have "k = 0 \<or> k = 1 \<or> k = 2" by arith
      then show ?thesis by (elim disjE) simp_all
    qed
    define k where "k = min 3 (length hs)"
    have "k \<le> 3" by (simp add: k_def)
    moreover from h3 small [of k] have "\<not> k < 3" unfolding k_def by blast
    ultimately have "k = 3" by arith
    then have "min 3 (length hs) = 3" by (simp only: k_def)
    then have "map snd stl = [''H1'', ''H2'', ''H3'']" by (simp add: snds)
    then have "''H1'' \<in> snd ` set stl \<and> ''H2'' \<in> snd ` set stl"
      by (metis list.set_intros(1,2) set_map)
    then show "(\<exists>s. (s, ''H1'') \<in> set stl) \<and> (\<exists>s. (s, ''H2'') \<in> set stl)" by force
  qed
  from snds d1 d2 imp show ?thesis
    unfolding stl_def [symmetric] by (simp add: gsh card [unfolded cand_def] stl_def [symmetric])
qed

text \<open>A level map with all three levels.\<close>

theorem heading_levels_consecutive_witness:
  "fst (get_style_hierarchy manual_doc 1)
     = [((18, False), ''H1''), ((14, True), ''H2''), ((14, False), ''H3'')]
   \<and> (\<exists>s. (s, ''H1'') \<in> set (fst (get_style_hierarchy manual_doc 1)))
   \<and> (\<exists>s. (s, ''H2'') \<in> set (fst (get_style_hierarchy manual_doc 1)))"
proof -
  have a: "fst (get_style_hierarchy manual_doc 1)
     = [((18, False), ''H1''), ((14, True), ''H2''), ((14, False), ''H3'')]" by code_simp
  then have "\<exists>s. (s, ''H3'') \<in> set (fst (get_style_hierarchy manual_doc 1))" by auto
  with heading_levels_consecutive [of manual_doc 1] a show ?thesis by blast
qed

end
